theory Spec2Isabelle
  imports Complex_Main "HOL-Library.AList" "HOL-Library.Multiset"
begin

section \<open>The WebDriver pool of appnew.py\<close>

text \<open>
  The class \<open>WebDriverPool\<close> of \<open>src/appnew.py\<close> keeps browser sessions in an idle
  queue (\<open>driver_pool\<close>) and a dictionary of leased sessions (\<open>active_drivers\<close>), counted
  by \<open>pool_size\<close> and bounded by \<open>max_drivers\<close>.

  The embedding is by explicit state passing.  What the code asks of the outside world
  (the clock, the answer of a browser to \<open>driver.current_url\<close>, the outcome of
  \<open>driver.quit()\<close> and of \<open>webdriver.Chrome(...)\<close>) is an argument of each
  operation, the record \<open>env\<close>.  An exception is a value: an operation returns an
  \<open>outcome\<close> together with the pool as the exception leaves it.  Timestamps are real
  numbers (seconds); the rounding of Python floats is not modelled.
\<close>

subsection \<open>Drivers, exceptions, the environment\<close>

text \<open>
  A driver object.  \<open>address\<close> is what the builtin \<open>id(driver)\<close> returns (in CPython
  the memory address of the object); \<open>session\<close> stands for the browser session that the
  object was created with, so two objects created by two calls of the factory differ in
  it even when the second one is allocated where the first one was.
\<close>

record webdriver =
  address :: nat
  session :: nat

text \<open>
  The exception classes the code names, and \<open>OtherException\<close> for any exception that
  is not a \<open>WebDriverException\<close> (a connection error raised below Selenium, say).
  \<open>isinstance x c\<close> is Python's \<open>isinstance\<close> on them: in Selenium
  \<open>InvalidSessionIdException\<close> and \<open>NoSuchWindowException\<close> are subclasses of
  \<open>WebDriverException\<close>.
\<close>

datatype exn =
  InvalidSessionIdException | NoSuchWindowException | WebDriverException | OtherException

definition isinstance :: "exn \<Rightarrow> exn \<Rightarrow> bool" where
  "isinstance x c =
     (x = c \<or> (c = WebDriverException \<and> (x = InvalidSessionIdException \<or> x = NoSuchWindowException)))"

datatype 'a outcome = Returns 'a | Raises exn

record env =
  time_time :: real
  current_url :: "webdriver \<Rightarrow> exn option"
  driver_quit :: "webdriver \<Rightarrow> exn option"
  webdriver_Chrome :: "webdriver outcome"
  set_timeouts :: "webdriver \<Rightarrow> exn option"

subsection \<open>The pool\<close>

text \<open>
  An entry of the idle queue is the dictionary \<open>{"driver", "created_at"}\<close>; an entry of
  \<open>active_drivers\<close> has \<open>"last_used"\<close> as well.  \<open>active_drivers\<close> is a Python
  dictionary keyed by \<open>id(driver)\<close>: an association list in insertion order, assigned
  with \<open>AList.update\<close> and popped with \<open>AList.delete\<close>.  \<open>driver_pool\<close> is a FIFO
  queue: \<open>get\<close> takes the head, \<open>put\<close> appends.  \<open>pool_size\<close> is a Python integer
  that the code decrements without a test, so it is an \<open>int\<close>.

  \<open>quit_calls\<close> and \<open>created\<close> are not fields of the class: they log, in order, the
  drivers on which \<open>driver.quit()\<close> was invoked and the drivers that
  \<open>_create_new_driver\<close> handed to the pool.
\<close>

record driver_info =
  driver :: webdriver
  created_at :: real

record lease = driver_info +
  last_used :: real

record pool =
  driver_pool :: "driver_info list"
  active_drivers :: "(nat \<times> lease) list"
  max_drivers :: int
  max_driver_age :: real
  pool_size :: int
  running :: bool
  quit_calls :: "webdriver list"
  created :: "webdriver list"

definition init :: "int \<Rightarrow> real \<Rightarrow> pool" where
  "init n age =
     \<lparr>driver_pool = [], active_drivers = [], max_drivers = n, max_driver_age = age,
      pool_size = 0, running = True, quit_calls = [], created = []\<rparr>"

subsection \<open>Factory and validator\<close>

text \<open>
  \<open>_is_driver_valid\<close>: a falsy driver is invalid; otherwise \<open>driver.current_url\<close> is
  read, and the \<open>except\<close> clause turns the three listed classes into \<open>False\<close>.  Any
  other exception leaves the function.
\<close>

definition is_driver_valid :: "env \<Rightarrow> webdriver option \<Rightarrow> bool outcome" where
  "is_driver_valid e drv =
     (case drv of
        None \<Rightarrow> Returns False
      | Some d \<Rightarrow>
          (case current_url e d of
             None \<Rightarrow> Returns True
           | Some x \<Rightarrow>
               if isinstance x InvalidSessionIdException \<or> isinstance x NoSuchWindowException
                  \<or> isinstance x WebDriverException
               then Returns False
               else Raises x))"

text \<open>
  \<open>_quit_driver\<close>: nothing for a falsy driver; otherwise \<open>driver.quit()\<close> is invoked
  and an exception of it is logged and dropped.
\<close>

definition quit_driver :: "env \<Rightarrow> webdriver option \<Rightarrow> pool \<Rightarrow> pool" where
  "quit_driver e drv s =
     (case drv of
        None \<Rightarrow> s
      | Some d \<Rightarrow>
          (case driver_quit e d of
             None \<Rightarrow> s\<lparr>quit_calls := quit_calls s @ [d]\<rparr>
           | Some x \<Rightarrow> s\<lparr>quit_calls := quit_calls s @ [d]\<rparr>))"

text \<open>
  \<open>_create_new_driver\<close>: the Chrome options are assembled (string building, which
  cannot fail and is left out), \<open>webdriver.Chrome\<close> is called and the three timeouts
  are set on the new driver.  An exception of either call leaves the function; when a
  timeout setter raises, the driver that \<open>webdriver.Chrome\<close> returned is dropped
  without a \<open>quit\<close>.
\<close>

definition create_new_driver :: "env \<Rightarrow> webdriver outcome" where
  "create_new_driver e =
     (case webdriver_Chrome e of
        Raises x \<Rightarrow> Raises x
      | Returns d \<Rightarrow>
          (case set_timeouts e d of
             Some x \<Rightarrow> Raises x
           | None \<Rightarrow> Returns d))"

subsection \<open>release_driver\<close>

definition release_driver :: "env \<Rightarrow> webdriver option \<Rightarrow> pool \<Rightarrow> unit outcome \<times> pool" where
  "release_driver e drv s =
     (case drv of
        None \<Rightarrow> (Returns (), s)
      | Some d \<Rightarrow>
          (let driver_id = address d in
           case map_of (active_drivers s) driver_id of
             Some info \<Rightarrow>
               (let s1 = s\<lparr>active_drivers := AList.delete driver_id (active_drivers s)\<rparr>;
                    age = time_time e - created_at info
                in if age > max_driver_age s1
                   then (Returns (),
                         (quit_driver e (Some d) s1)\<lparr>pool_size := pool_size s1 - 1\<rparr>)
                   else
                     (case is_driver_valid e (Some d) of
                        Raises x \<Rightarrow> (Raises x, s1)
                      | Returns False \<Rightarrow>
                          (Returns (),
                           (quit_driver e (Some d) s1)\<lparr>pool_size := pool_size s1 - 1\<rparr>)
                      | Returns True \<Rightarrow>
                          (Returns (),
                           s1\<lparr>driver_pool := driver_pool s1 @
                                 [\<lparr>driver = d, created_at = created_at info\<rparr>]\<rparr>)))
           | None \<Rightarrow> (Returns (), quit_driver e (Some d) s)))"

subsection \<open>get_driver\<close>

text \<open>
  One pass through the body of the \<open>while\<close> loop of \<open>get_driver\<close>, once the loop
  test has passed.  The pass ends in \<open>return driver\<close>, in an exception that leaves
  \<open>get_driver\<close>, in \<open>continue\<close> (the next loop test follows at once) or at
  \<open>time.sleep(0.5)\<close>.

  The pass has two parts that the code runs under different protection.
  \<open>self.driver_pool.get(block=False)\<close> is made with no lock held.  What follows it in
  the \<open>try\<close> is \<open>handle_popped\<close>: the probe of the popped driver, then either the
  insert into the active map or the quit and the decrement, each under the lock.  When
  the queue is empty, \<open>queue.Empty\<close> takes the pass to \<open>on_empty\<close>, the block
  under the lock that creates a driver if the count allows it.
\<close>

datatype step = Return webdriver | Raise exn | Continue | Sleep

definition handle_popped :: "env \<Rightarrow> driver_info \<Rightarrow> pool \<Rightarrow> step \<times> pool" where
  "handle_popped e info s1 =
     (let d = driver info
      in case is_driver_valid e (Some d) of
           Raises x \<Rightarrow> (Raise x, s1)
         | Returns True \<Rightarrow>
             (Return d,
              s1\<lparr>active_drivers :=
                   AList.update (address d)
                     \<lparr>driver = d, created_at = created_at info, last_used = time_time e\<rparr>
                     (active_drivers s1)\<rparr>)
         | Returns False \<Rightarrow>
             (let s2 = quit_driver e (Some d) s1
              in (Continue, s2\<lparr>pool_size := pool_size s2 - 1\<rparr>)))"

definition on_empty :: "env \<Rightarrow> pool \<Rightarrow> step \<times> pool" where
  "on_empty e s =
     (if pool_size s < max_drivers s
      then (case create_new_driver e of
              Raises x \<Rightarrow> (Raise x, s)
            | Returns d \<Rightarrow>
                (let s1 = s\<lparr>pool_size := pool_size s + 1, created := created s @ [d]\<rparr>;
                     t = time_time e
                 in (Return d,
                     s1\<lparr>active_drivers :=
                          AList.update (address d)
                            \<lparr>driver = d, created_at = t, last_used = t\<rparr>
                            (active_drivers s1)\<rparr>)))
      else (Sleep, s))"

text \<open>The pass when no other thread acts between the pop and what follows it.\<close>

definition get_driver_iter :: "env \<Rightarrow> pool \<Rightarrow> step \<times> pool" where
  "get_driver_iter e s =
     (case driver_pool s of
        info # rest \<Rightarrow> handle_popped e info (s\<lparr>driver_pool := rest\<rparr>)
      | [] \<Rightarrow> on_empty e s)"

subsection \<open>The maintenance worker\<close>

text \<open>
  The first \<open>with self.lock\<close> block of a sweep: the entries of \<open>active_drivers\<close>
  not used for more than 300 seconds are collected, then each is quit, popped and
  counted off.
\<close>

definition stuck_drivers :: "real \<Rightarrow> (nat \<times> lease) list \<Rightarrow> (nat \<times> webdriver) list" where
  "stuck_drivers current_time items =
     map (\<lambda>(driver_id, info). (driver_id, driver info))
       (filter (\<lambda>(driver_id, info). current_time - last_used info > 300) items)"

fun clean_up :: "env \<Rightarrow> (nat \<times> webdriver) list \<Rightarrow> pool \<Rightarrow> pool" where
  "clean_up e [] s = s"
| "clean_up e ((driver_id, d) # rest) s =
     (let s1 = quit_driver e (Some d) s;
          s2 = s1\<lparr>active_drivers := AList.delete driver_id (active_drivers s1)\<rparr>
      in clean_up e rest (s2\<lparr>pool_size := pool_size s2 - 1\<rparr>))"

definition reap_stuck :: "env \<Rightarrow> pool \<Rightarrow> pool" where
  "reap_stuck e s = clean_up e (stuck_drivers (time_time e) (active_drivers s)) s"

text \<open>The second block: \<open>pool_size\<close> is set to what the two containers hold.\<close>

definition check_consistency :: "pool \<Rightarrow> pool" where
  "check_consistency s =
     (let expected_size = int (length (active_drivers s)) + int (length (driver_pool s))
      in if expected_size \<noteq> pool_size s then s\<lparr>pool_size := expected_size\<rparr> else s)"

text \<open>
  The body of the \<open>try\<close> of one period.  Nothing in it raises: the only call into
  the outside world is \<open>driver.quit()\<close>, inside \<open>_quit_driver\<close>.
\<close>

definition sweep :: "env \<Rightarrow> pool \<Rightarrow> unit outcome \<times> pool" where
  "sweep e s = (Returns (), check_consistency (reap_stuck e s))"

text \<open>
  \<open>_maintenance_worker\<close>, run for the periods of the list (one environment for each):
  \<open>while self.running\<close>, and \<open>except Exception\<close> logs and goes on.
\<close>

fun maintenance_worker :: "env list \<Rightarrow> pool \<Rightarrow> pool" where
  "maintenance_worker [] s = s"
| "maintenance_worker (e # es) s =
     (if running s
      then (case sweep e s of
              (Returns u, s') \<Rightarrow> maintenance_worker es s'
            | (Raises x, s') \<Rightarrow> maintenance_worker es s')
      else s)"

subsection \<open>shutdown\<close>

text \<open>
  \<open>shutdown\<close> clears the flag and empties the idle queue with no lock held: each
  turn of the loop \<open>while not self.driver_pool.empty()\<close> takes one entry and quits
  its driver (\<open>drain_one\<close>).  Only then it takes the lock, quits every driver of the
  active map, clears the map and zeroes the count (\<open>shutdown_locked\<close>).
\<close>

definition drain_one :: "env \<Rightarrow> pool \<Rightarrow> pool" where
  "drain_one e s =
     (case driver_pool s of
        [] \<Rightarrow> s
      | info # rest \<Rightarrow> quit_driver e (Some (driver info)) (s\<lparr>driver_pool := rest\<rparr>))"

function drain :: "env \<Rightarrow> pool \<Rightarrow> pool" where
  "drain e s = (if driver_pool s = [] then s else drain e (drain_one e s))"
  by pat_completeness auto
termination
  by (relation "measure (\<lambda>(e, s). length (driver_pool s))")
     (auto simp: drain_one_def quit_driver_def split: option.splits list.splits)

declare drain.simps [simp del]

definition shutdown_locked :: "env \<Rightarrow> pool \<Rightarrow> pool" where
  "shutdown_locked e s1 =
     (let s2 = fold (\<lambda>info. quit_driver e (Some (driver info))) (map snd (active_drivers s1)) s1
      in s2\<lparr>active_drivers := [], pool_size := 0\<rparr>)"

text \<open>The call when no other thread acts between its parts.\<close>

definition shutdown :: "env \<Rightarrow> pool \<Rightarrow> pool" where
  "shutdown e s = shutdown_locked e (drain e (s\<lparr>running := False\<rparr>))"

subsection \<open>Runs\<close>

text \<open>
  An action is a stretch of one call during which no other thread acts: a pass of a
  thread through the loop body of \<open>get_driver\<close>, a call of \<open>release_driver\<close>, a
  sweep of the maintenance worker, a call of \<open>shutdown\<close>.  A run is a list of
  actions, an execution in which such stretches follow one another.  The executions in
  which they overlap are those of the moves further down.
\<close>

datatype action =
  Acquire env | Release env "webdriver option" | Sweep env | Shutdown env

fun exec :: "action \<Rightarrow> pool \<Rightarrow> pool" where
  "exec (Acquire e) s = snd (get_driver_iter e s)"
| "exec (Release e drv) s = snd (release_driver e drv s)"
| "exec (Sweep e) s = snd (sweep e s)"
| "exec (Shutdown e) s = shutdown e s"

fun run :: "action list \<Rightarrow> pool \<Rightarrow> pool" where
  "run [] s = s"
| "run (a # as) s = run as (exec a s)"

text \<open>
  \<open>get_driver\<close> as one thread runs it.  \<open>start_time\<close> is the first reading of the
  clock.  Each element of the list is one evaluation of the loop test: what the other
  threads did since the previous one (\<open>others\<close>), the reading of the clock in the
  test (\<open>loop_time\<close>) and the environment of the pass that follows.  The result is
  \<open>None\<close> when the list ends while the call is still in its loop.
\<close>

datatype acquired = Driver webdriver | TimeoutError | Exception exn

record round =
  others :: "action list"
  loop_time :: real
  round_env :: env

fun get_driver :: "real \<Rightarrow> real \<Rightarrow> round list \<Rightarrow> pool \<Rightarrow> acquired option \<times> pool" where
  "get_driver start_time timeout [] s = (None, s)"
| "get_driver start_time timeout (r # rs) s =
     (let s0 = run (others r) s
      in if loop_time r - start_time < timeout
         then (case get_driver_iter (round_env r) s0 of
                 (Return d, s') \<Rightarrow> (Some (Driver d), s')
               | (Raise x, s') \<Rightarrow> (Some (Exception x), s')
               | (Continue, s') \<Rightarrow> get_driver start_time timeout rs s'
               | (Sleep, s') \<Rightarrow> get_driver start_time timeout rs s')
         else (Some TimeoutError, s0))"

subsection \<open>Threads at the grain of the locks\<close>

text \<open>
  The lock of the pool and the lock inside \<open>queue.Queue\<close> cut the calls into moves
  that no other thread can interrupt.  \<open>in_hand\<close> holds the queue entries that
  passes of \<open>get_driver\<close> have taken and not yet dealt with: the local variable
  \<open>driver_info\<close> of those threads.  \<open>started\<close> logs every driver object that
  \<open>webdriver.Chrome\<close> has returned, also one that \<open>_create_new_driver\<close> then
  drops because a timeout setter raises (\<open>launched\<close>).  The moves:
  \<^item> \<open>Queue_get\<close>: the \<open>driver_pool.get(block=False)\<close> of a pass of \<open>get_driver\<close>,
    made with no lock held; on an empty queue it changes nothing and the pass goes on
    with \<open>On_empty\<close>;
  \<^item> \<open>Handle e info\<close>: what the pass does with the entry it took (\<open>handle_popped\<close>);
    the probe and \<open>quit\<close> act on the outside world only, the insert and the
    decrement are under the lock;
  \<^item> \<open>On_empty e\<close>: the block under the lock that follows \<open>queue.Empty\<close>;
  \<^item> \<open>Call_release e drv\<close>: \<open>release_driver\<close>, all of it under the lock (its one
    access to the queue is the \<open>put\<close> at its end);
  \<^item> \<open>Reap e\<close> and \<open>Check\<close>: the two blocks of a sweep, each under the lock;
  \<^item> \<open>Stop\<close>, \<open>Drain e\<close> and \<open>Locked_shutdown e\<close>: the flag, one turn of the
    drain loop and the block under the lock of \<open>shutdown\<close>.
\<close>

record system =
  pool_of :: pool
  in_hand :: "driver_info list"
  started :: "webdriver list"

definition launched :: "env \<Rightarrow> pool \<Rightarrow> webdriver list" where
  "launched e s =
     (if pool_size s < max_drivers s
      then (case webdriver_Chrome e of Returns d \<Rightarrow> [d] | Raises x \<Rightarrow> [])
      else [])"

datatype move =
  Queue_get
| Handle env driver_info
| On_empty env
| Call_release env "webdriver option"
| Reap env
| Check
| Stop
| Drain env
| Locked_shutdown env

fun do_move :: "move \<Rightarrow> system \<Rightarrow> system" where
  "do_move Queue_get w =
     (case driver_pool (pool_of w) of
        [] \<Rightarrow> w
      | info # rest \<Rightarrow>
          w\<lparr>pool_of := (pool_of w)\<lparr>driver_pool := rest\<rparr>, in_hand := in_hand w @ [info]\<rparr>)"
| "do_move (Handle e info) w =
     (if info \<in> set (in_hand w)
      then w\<lparr>pool_of := snd (handle_popped e info (pool_of w)),
             in_hand := remove1 info (in_hand w)\<rparr>
      else w)"
| "do_move (On_empty e) w =
     w\<lparr>pool_of := snd (on_empty e (pool_of w)),
       started := started w @ launched e (pool_of w)\<rparr>"
| "do_move (Call_release e drv) w = w\<lparr>pool_of := snd (release_driver e drv (pool_of w))\<rparr>"
| "do_move (Reap e) w = w\<lparr>pool_of := reap_stuck e (pool_of w)\<rparr>"
| "do_move Check w = w\<lparr>pool_of := check_consistency (pool_of w)\<rparr>"
| "do_move Stop w = w\<lparr>pool_of := (pool_of w)\<lparr>running := False\<rparr>\<rparr>"
| "do_move (Drain e) w = w\<lparr>pool_of := drain_one e (pool_of w)\<rparr>"
| "do_move (Locked_shutdown e) w = w\<lparr>pool_of := shutdown_locked e (pool_of w)\<rparr>"

fun moves :: "move list \<Rightarrow> system \<Rightarrow> system" where
  "moves [] w = w"
| "moves (m # ms) w = moves ms (do_move m w)"

definition fresh :: "int \<Rightarrow> real \<Rightarrow> system" where
  "fresh n age = \<lparr>pool_of = init n age, in_hand = [], started = []\<rparr>"

subsection \<open>What the properties speak of\<close>

text \<open>
  The drivers a pool tracks, idle ones first, and the ids under which it tracks them:
  an idle driver has no key, its id is \<open>id(driver)\<close>.
\<close>

definition tracked :: "pool \<Rightarrow> webdriver list" where
  "tracked s = map driver (driver_pool s) @ map (\<lambda>p. driver (snd p)) (active_drivers s)"

definition tracked_ids :: "pool \<Rightarrow> nat list" where
  "tracked_ids s =
     map (\<lambda>info. address (driver info)) (driver_pool s) @ map fst (active_drivers s)"

text \<open>
  The count agrees with the containers and respects the capacity.
\<close>

definition consistent :: "pool \<Rightarrow> bool" where
  "consistent s =
     (pool_size s = int (length (driver_pool s)) + int (length (active_drivers s)) \<and>
      pool_size s \<le> max_drivers s)"


text \<open>\<open>raises\<close> tells an exception from a return.\<close>

fun raises :: "'a outcome \<Rightarrow> bool" where
  "raises (Raises x) = True"
| "raises (Returns v) = False"

text \<open>
  What the pool holds: the drivers it tracks and those in the hands of passes of
  \<open>get_driver\<close>; and the ids of all of them.
\<close>

definition held :: "system \<Rightarrow> webdriver list" where
  "held w = tracked (pool_of w) @ map driver (in_hand w)"

definition held_ids :: "system \<Rightarrow> nat list" where
  "held_ids w = tracked_ids (pool_of w) @ map (\<lambda>info. address (driver info)) (in_hand w)"

text \<open>
  A move is orderly when
  \<^item> the probe it makes, if it makes one, does not raise;
  \<^item> the driver object that \<open>webdriver.Chrome\<close> returns, if it is asked for one, is
    none of those it returned before, its id is the id of no driver the pool holds
    (CPython gives objects that are alive at the same time different ids), and the
    timeout setters do not raise on it;
  \<^item> \<open>release_driver\<close> is called with \<open>None\<close> or with the very driver object that
    is in the active map under its id.
\<close>

fun orderly :: "move \<Rightarrow> system \<Rightarrow> bool" where
  "orderly (Handle e info) w =
     (if info \<in> set (in_hand w) then \<not> raises (is_driver_valid e (Some (driver info)))
      else True)"
| "orderly (On_empty e) w =
     (if pool_size (pool_of w) < max_drivers (pool_of w)
      then (case webdriver_Chrome e of
              Returns d \<Rightarrow>
                set_timeouts e d = None \<and> address d \<notin> set (held_ids w) \<and>
                d \<notin> set (started w)
            | Raises x \<Rightarrow> True)
      else True)"
| "orderly (Call_release e None) w = True"
| "orderly (Call_release e (Some d)) w =
     (case map_of (active_drivers (pool_of w)) (address d) of
        None \<Rightarrow> False
      | Some info \<Rightarrow>
          driver info = d \<and>
          (if time_time e - created_at info > max_driver_age (pool_of w) then True
           else \<not> raises (is_driver_valid e (Some d))))"
| "orderly m w = True"

fun all_orderly :: "move list \<Rightarrow> system \<Rightarrow> bool" where
  "all_orderly [] w = True"
| "all_orderly (m # ms) w = (orderly m w \<and> all_orderly ms (do_move m w))"


text \<open>
  The words of the claim about the timeout, for comparison with \<open>get_driver\<close>: a call
  that starts in pool \<open>s\<close> is kept waiting through the rounds of the list, and is in
  pool \<open>s'\<close> after them, when at each of them the timeout has not elapsed and the
  poll finds the idle queue empty with the capacity exhausted, or finds an invalid
  driver at its head, which it quits and counts off.
\<close>

fun waiting :: "real \<Rightarrow> real \<Rightarrow> round list \<Rightarrow> pool \<Rightarrow> pool \<Rightarrow> bool" where
  "waiting start_time timeout [] s s' = (s' = s)"
| "waiting start_time timeout (r # rs) s s' =
     (let s0 = run (others r) s
      in loop_time r - start_time < timeout \<and>
         (case driver_pool s0 of
            [] \<Rightarrow> \<not> pool_size s0 < max_drivers s0 \<and> waiting start_time timeout rs s0 s'
          | info # rest \<Rightarrow>
              is_driver_valid (round_env r) (Some (driver info)) = Returns False \<and>
              waiting start_time timeout rs
                (s0\<lparr>driver_pool := rest, quit_calls := quit_calls s0 @ [driver info],
                    pool_size := pool_size s0 - 1\<rparr>) s'))"

subsection \<open>Sample drivers, environments and pools\<close>

text \<open>
  Concrete inputs for the examples below.  \<open>env_at t probe chrome\<close> is an environment
  whose clock reads \<open>t\<close>, in which \<open>driver.current_url\<close> behaves as \<open>probe\<close> for every
  driver, \<open>webdriver.Chrome\<close> as \<open>chrome\<close>, and neither \<open>driver.quit()\<close> nor the
  setting of the timeouts fails.  \<open>R3\<close> is a driver object allocated where \<open>R1\<close> was.
\<close>

definition env_at :: "real \<Rightarrow> exn option \<Rightarrow> webdriver outcome \<Rightarrow> env" where
  "env_at t probe chrome =
     \<lparr>time_time = t, current_url = (\<lambda>d. probe), driver_quit = (\<lambda>d. None),
      webdriver_Chrome = chrome, set_timeouts = (\<lambda>d. None)\<rparr>"

definition R1 :: webdriver where "R1 = \<lparr>address = 1, session = 1\<rparr>"

definition R2 :: webdriver where "R2 = \<lparr>address = 2, session = 2\<rparr>"

definition R3 :: webdriver where "R3 = \<lparr>address = 1, session = 3\<rparr>"

text \<open>A pool of capacity 1 whose only driver, \<open>R1\<close>, was created and leased at time 0.\<close>

definition leased_R1 :: pool where
  "leased_R1 =
     \<lparr>driver_pool = [],
      active_drivers = [(1, \<lparr>driver = R1, created_at = 0, last_used = 0\<rparr>)],
      max_drivers = 1, max_driver_age = 1800, pool_size = 1, running = True,
      quit_calls = [], created = [R1]\<rparr>"

text \<open>
  A pool of capacity 2 with \<open>R1\<close> leased since time 0 and \<open>R2\<close> leased since time
  200, whose \<open>pool_size\<close> has drifted to 3; and an environment in which every
  \<open>driver.quit()\<close> raises.
\<close>

definition two_leased :: pool where
  "two_leased =
     \<lparr>driver_pool = [],
      active_drivers =
        [(1, \<lparr>driver = R1, created_at = 0, last_used = 0\<rparr>),
         (2, \<lparr>driver = R2, created_at = 200, last_used = 200\<rparr>)],
      max_drivers = 2, max_driver_age = 1800, pool_size = 3, running = True,
      quit_calls = [], created = [R1, R2]\<rparr>"

definition quit_failing :: "real \<Rightarrow> env" where
  "quit_failing t =
     \<lparr>time_time = t, current_url = (\<lambda>d. None),
      driver_quit = (\<lambda>d. Some WebDriverException),
      webdriver_Chrome = Raises WebDriverException, set_timeouts = (\<lambda>d. None)\<rparr>"

text \<open>
  A run on a fresh pool of capacity 1: a first \<open>get_driver\<close> creates \<open>R1\<close>, it is
  released in good health, and the second \<open>get_driver\<close> finds \<open>R1\<close> in the idle
  queue and its probe raises an exception that is not a \<open>WebDriverException\<close>.
\<close>

definition faulty_run :: "action list" where
  "faulty_run =
     [Acquire (env_at 0 None (Returns R1)),
      Release (env_at 5 None (Returns R2)) (Some R1),
      Acquire (env_at 9 (Some OtherException) (Returns R2))]"

text \<open>
  A run in which \<open>R1\<close> is created, left with its holder until a sweep reaps it, and
  the next driver, \<open>R3\<close>, is allocated at the address \<open>R1\<close> had.
\<close>

definition id_reuse_run :: "action list" where
  "id_reuse_run =
     [Acquire (env_at 0 None (Returns R1)),
      Sweep (env_at 400 None (Returns R2)),
      Acquire (env_at 401 None (Returns R3))]"

text \<open>A run in which the holder of \<open>R1\<close> releases it after the pool was shut down.\<close>

definition late_release_run :: "action list" where
  "late_release_run =
     [Acquire (env_at 0 None (Returns R1)),
      Shutdown (env_at 5 None (Returns R2)),
      Release (env_at 9 None (Returns R2)) (Some R1)]"

text \<open>
  \<open>poll os t chrome\<close> is a round of \<open>get_driver\<close>: the other threads do \<open>os\<close>, then
  the loop test reads the clock as \<open>t\<close> and the pass runs in a calm environment.
  \<open>stale_idle\<close> is a full pool of capacity 1 whose only driver, \<open>R1\<close>, is idle.
\<close>

definition poll :: "action list \<Rightarrow> real \<Rightarrow> webdriver outcome \<Rightarrow> round" where
  "poll os t chrome = \<lparr>others = os, loop_time = t, round_env = env_at t None chrome\<rparr>"

definition stale_idle :: pool where
  "stale_idle =
     \<lparr>driver_pool = [\<lparr>driver = R1, created_at = 0\<rparr>], active_drivers = [],
      max_drivers = 1, max_driver_age = 1800, pool_size = 1, running = True,
      quit_calls = [], created = [R1]\<rparr>"

text \<open>
  Moves on a fresh pool of capacity 1.  In \<open>calm_moves\<close> a thread finds the queue
  empty and creates \<open>R1\<close>, releases it in good health, takes it from the queue again
  and leases it; a sweep follows.  In \<open>race_moves\<close> \<open>R1\<close> is created and released;
  thread A takes it from the queue; a sweep runs before A has dealt with it; A leases
  it; thread B finds the queue empty and asks for a driver; a second sweep follows.  In
  \<open>overlapped_shutdown_moves\<close> \<open>R1\<close> is leased, \<open>shutdown\<close> finds the queue
  empty, the holder releases \<open>R1\<close> in good health, and \<open>shutdown\<close> runs its
  block under the lock.  \<open>setup_failing t\<close> is an environment in which
  \<open>webdriver.Chrome\<close> returns \<open>R1\<close> and the timeout setters raise.
\<close>

definition setup_failing :: "real \<Rightarrow> env" where
  "setup_failing t =
     \<lparr>time_time = t, current_url = (\<lambda>d. None), driver_quit = (\<lambda>d. None),
      webdriver_Chrome = Returns R1, set_timeouts = (\<lambda>d. Some WebDriverException)\<rparr>"

definition calm_moves :: "move list" where
  "calm_moves =
     [Queue_get,
      On_empty (env_at 0 None (Returns R1)),
      Call_release (env_at 5 None (Returns R2)) (Some R1),
      Queue_get,
      Handle (env_at 9 None (Returns R2)) \<lparr>driver = R1, created_at = 0\<rparr>,
      Reap (env_at 30 None (Returns R2)),
      Check]"

definition race_moves :: "move list" where
  "race_moves =
     [Queue_get,
      On_empty (env_at 0 None (Returns R1)),
      Call_release (env_at 5 None (Returns R2)) (Some R1),
      Queue_get,
      Reap (env_at 30 None (Returns R2)),
      Check,
      Handle (env_at 31 None (Returns R2)) \<lparr>driver = R1, created_at = 0\<rparr>,
      Queue_get,
      On_empty (env_at 32 None (Returns R2)),
      Reap (env_at 60 None (Returns R2)),
      Check]"

definition overlapped_shutdown_moves :: "move list" where
  "overlapped_shutdown_moves =
     [Queue_get,
      On_empty (env_at 0 None (Returns R1)),
      Stop,
      Drain (env_at 5 None (Returns R2)),
      Call_release (env_at 6 None (Returns R2)) (Some R1),
      Locked_shutdown (env_at 7 None (Returns R2))]"

section \<open>Properties\<close>

subsection \<open>The operations case by case\<close>

lemma quit_driver_Some: "quit_driver e (Some d) s = s\<lparr>quit_calls := quit_calls s @ [d]\<rparr>"
  by (simp add: quit_driver_def split: option.splits)

lemma delete_filter: "AList.delete k al = filter (\<lambda>p. fst p \<noteq> k) al"
  by (induction al) auto

lemma clean_up_eq:
  "clean_up e st s =
     s\<lparr>quit_calls := quit_calls s @ map snd st,
       active_drivers := filter (\<lambda>p. fst p \<notin> set (map fst st)) (active_drivers s),
       pool_size := pool_size s - int (length st)\<rparr>"
proof (induction st arbitrary: s)
  case Nil
  then show ?case by simp
next
  case (Cons p st)
  obtain k d where p: "p = (k, d)" by (cases p)
  show ?case
    by (simp add: p Cons.IH quit_driver_Some Let_def delete_filter diff_diff_eq conj_commute)
qed

lemma filter_not_stuck:
  "distinct (map fst al) \<Longrightarrow>
   filter (\<lambda>p. fst p \<notin> set (map fst (filter P al))) al = filter (\<lambda>p. \<not> P p) al"
  by (rule filter_cong) (auto simp: image_iff dest: eq_key_imp_eq_value)

lemma reap_stuck_eq:
  assumes "distinct (map fst (active_drivers s))"
  shows "reap_stuck e s =
     s\<lparr>quit_calls := quit_calls s @
          map (\<lambda>p. driver (snd p))
            (filter (\<lambda>p. time_time e - last_used (snd p) > 300) (active_drivers s)),
       active_drivers :=
          filter (\<lambda>p. \<not> time_time e - last_used (snd p) > 300) (active_drivers s),
       pool_size := pool_size s -
          int (length (filter (\<lambda>p. time_time e - last_used (snd p) > 300)
                 (active_drivers s)))\<rparr>"
proof -
  let ?P = "\<lambda>p. time_time e - last_used (snd p) > 300"
  have st: "stuck_drivers (time_time e) (active_drivers s) =
      map (\<lambda>p. (fst p, driver (snd p))) (filter ?P (active_drivers s))"
    by (simp add: stuck_drivers_def split_def)
  have keys: "map fst (stuck_drivers (time_time e) (active_drivers s)) =
      map fst (filter ?P (active_drivers s))"
    by (simp add: st comp_def)
  have drv: "map snd (stuck_drivers (time_time e) (active_drivers s)) =
      map (\<lambda>p. driver (snd p)) (filter ?P (active_drivers s))"
    by (simp add: st comp_def)
  have len: "length (stuck_drivers (time_time e) (active_drivers s)) =
      length (filter ?P (active_drivers s))"
    by (simp add: st)
  show ?thesis
    unfolding reap_stuck_def clean_up_eq keys drv len filter_not_stuck [OF assms] ..
qed

text \<open>
  Each pass of \<open>get_driver\<close> and each call of \<open>release_driver\<close> takes one of six
  ways through the code; \<open>shutdown\<close> and a sweep have one.
\<close>

lemma get_driver_iter_cases [case_names reuse invalid fault create create_fails full]:
  obtains
    (reuse) info rest where
      "driver_pool s = info # rest"
      "is_driver_valid e (Some (driver info)) = Returns True"
      "get_driver_iter e s =
         (Return (driver info),
          s\<lparr>driver_pool := rest,
            active_drivers :=
              AList.update (address (driver info))
                \<lparr>driver = driver info, created_at = created_at info, last_used = time_time e\<rparr>
                (active_drivers s)\<rparr>)"
  | (invalid) info rest where
      "driver_pool s = info # rest"
      "is_driver_valid e (Some (driver info)) = Returns False"
      "get_driver_iter e s =
         (Continue,
          s\<lparr>driver_pool := rest, quit_calls := quit_calls s @ [driver info],
            pool_size := pool_size s - 1\<rparr>)"
  | (fault) info rest x where
      "driver_pool s = info # rest"
      "is_driver_valid e (Some (driver info)) = Raises x"
      "get_driver_iter e s = (Raise x, s\<lparr>driver_pool := rest\<rparr>)"
  | (create) d where
      "driver_pool s = []" "pool_size s < max_drivers s"
      "create_new_driver e = Returns d"
      "get_driver_iter e s =
         (Return d,
          s\<lparr>pool_size := pool_size s + 1, created := created s @ [d],
            active_drivers :=
              AList.update (address d)
                \<lparr>driver = d, created_at = time_time e, last_used = time_time e\<rparr>
                (active_drivers s)\<rparr>)"
  | (create_fails) x where
      "driver_pool s = []" "pool_size s < max_drivers s"
      "create_new_driver e = Raises x"
      "get_driver_iter e s = (Raise x, s)"
  | (full)
      "driver_pool s = []" "\<not> pool_size s < max_drivers s"
      "get_driver_iter e s = (Sleep, s)"
proof (cases "driver_pool s")
  case Nil
  show ?thesis
  proof (cases "pool_size s < max_drivers s")
    case True
    show ?thesis
    proof (cases "create_new_driver e")
      case (Returns d)
      with Nil True show ?thesis
        by (intro create [of d]) (simp_all add: get_driver_iter_def handle_popped_def on_empty_def Let_def)
    next
      case (Raises x)
      with Nil True show ?thesis
        by (intro create_fails [of x]) (simp_all add: get_driver_iter_def handle_popped_def on_empty_def)
    qed
  next
    case False
    with Nil show ?thesis
      by (intro full) (simp_all add: get_driver_iter_def handle_popped_def on_empty_def)
  qed
next
  case (Cons info rest)
  show ?thesis
  proof (cases "is_driver_valid e (Some (driver info))")
    case (Returns v)
    show ?thesis
    proof (cases v)
      case True
      with Cons Returns show ?thesis
        by (intro reuse [of info rest]) (simp_all add: get_driver_iter_def handle_popped_def on_empty_def Let_def)
    next
      case False
      with Cons Returns show ?thesis
        by (intro invalid [of info rest])
           (simp_all add: get_driver_iter_def handle_popped_def on_empty_def Let_def quit_driver_Some)
    qed
  next
    case (Raises x)
    with Cons show ?thesis
      by (intro fault [of info rest x]) (simp_all add: get_driver_iter_def handle_popped_def on_empty_def Let_def)
  qed
qed



lemma drain_eq:
  "drain e s = s\<lparr>driver_pool := [], quit_calls := quit_calls s @ map driver (driver_pool s)\<rparr>"
proof (induction e s rule: drain.induct)
  case (1 e s)
  show ?case
  proof (cases "driver_pool s")
    case Nil
    then show ?thesis by (subst drain.simps) simp
  next
    case (Cons info rest)
    then have "drain e s = drain e (drain_one e s)"
      by (subst drain.simps) simp
    also have "\<dots> = (drain_one e s)
        \<lparr>driver_pool := [],
         quit_calls := quit_calls (drain_one e s) @ map driver (driver_pool (drain_one e s))\<rparr>"
      using Cons by (intro "1.IH") simp
    also have "\<dots> = s\<lparr>driver_pool := [], quit_calls := quit_calls s @ map driver (driver_pool s)\<rparr>"
      by (simp add: drain_one_def quit_driver_Some Cons)
    finally show ?thesis .
  qed
qed

lemma fold_quit_driver:
  "fold (\<lambda>info. quit_driver e (Some (f info))) xs s = s\<lparr>quit_calls := quit_calls s @ map f xs\<rparr>"
  by (induction xs arbitrary: s) (simp_all add: quit_driver_Some)

lemma shutdown_eq:
  "shutdown e s =
     s\<lparr>running := False, driver_pool := [], active_drivers := [], pool_size := 0,
       quit_calls := quit_calls s @ tracked s\<rparr>"
  by (simp add: shutdown_def shutdown_locked_def Let_def drain_eq fold_quit_driver tracked_def
        comp_def)


lemma on_empty_cases [case_names create create_fails full]:
  obtains
    (create) d where "pool_size s < max_drivers s" "create_new_driver e = Returns d"
      "on_empty e s =
         (Return d,
          s\<lparr>pool_size := pool_size s + 1, created := created s @ [d],
            active_drivers :=
              AList.update (address d)
                \<lparr>driver = d, created_at = time_time e, last_used = time_time e\<rparr>
                (active_drivers s)\<rparr>)"
  | (create_fails) x where "pool_size s < max_drivers s" "create_new_driver e = Raises x"
      "on_empty e s = (Raise x, s)"
  | (full) "\<not> pool_size s < max_drivers s" "on_empty e s = (Sleep, s)"
proof (cases "pool_size s < max_drivers s")
  case True
  show ?thesis
  proof (cases "create_new_driver e")
    case (Returns d)
    with True show ?thesis
      by (intro create [of d]) (simp_all add: on_empty_def Let_def)
  next
    case (Raises x)
    with True show ?thesis
      by (intro create_fails [of x]) (simp_all add: on_empty_def)
  qed
next
  case False
  then show ?thesis
    by (intro full) (simp_all add: on_empty_def)
qed

lemma shutdown_locked_eq:
  "shutdown_locked e s =
     s\<lparr>active_drivers := [], pool_size := 0,
       quit_calls := quit_calls s @ map (\<lambda>p. driver (snd p)) (active_drivers s)\<rparr>"
  by (simp add: shutdown_locked_def Let_def fold_quit_driver comp_def)


subsection \<open>Calls as sequences of moves\<close>

text \<open>
  Moves made with no other thread in between add up to the pass, the sweep and the
  \<open>shutdown\<close> of the actions.
\<close>

lemma pass_as_moves:
  "pool_of
     (moves
        [Queue_get,
         (case driver_pool s of info # rest \<Rightarrow> Handle e info | [] \<Rightarrow> On_empty e)]
        \<lparr>pool_of = s, in_hand = [], started = []\<rparr>) = snd (get_driver_iter e s)"
  by (cases "driver_pool s") (simp_all add: get_driver_iter_def)

lemma sweep_as_moves: "pool_of (moves [Reap e, Check] w) = snd (sweep e (pool_of w))"
  by (simp add: sweep_def)

lemma drain_as_moves:
  "length (driver_pool (pool_of w)) = k \<Longrightarrow>
   pool_of (moves (replicate k (Drain e)) w) = drain e (pool_of w)"
proof (induction k arbitrary: w)
  case 0
  then show ?case by (subst drain.simps) simp
next
  case (Suc k)
  then obtain info rest where q: "driver_pool (pool_of w) = info # rest" "length rest = k"
    by (cases "driver_pool (pool_of w)") auto
  then have "length (driver_pool (pool_of (do_move (Drain e) w))) = k"
    by (simp add: drain_one_def quit_driver_Some)
  then have "pool_of (moves (replicate k (Drain e)) (do_move (Drain e) w)) =
      drain e (pool_of (do_move (Drain e) w))"
    by (rule Suc.IH)
  moreover from q have "drain e (pool_of w) = drain e (drain_one e (pool_of w))"
    by (subst drain.simps) simp
  ultimately show ?case by simp
qed

lemma moves_append: "moves (ms @ ms') w = moves ms' (moves ms w)"
  by (induction ms arbitrary: w) simp_all

lemma shutdown_as_moves:
  "pool_of (moves (Stop # replicate (length (driver_pool (pool_of w))) (Drain e) @
      [Locked_shutdown e]) w) = shutdown e (pool_of w)"
proof -
  have "length (driver_pool (pool_of (do_move Stop w))) = length (driver_pool (pool_of w))"
    by simp
  from drain_as_moves [OF this, of e] show ?thesis
    by (simp add: moves_append shutdown_def)
qed


subsection \<open>The samples\<close>

lemmas sample_defs =
  poll_def stale_idle_def leased_R1_def faulty_run_def id_reuse_run_def
  late_release_run_def calm_moves_def race_moves_def overlapped_shutdown_moves_def
  env_at_def setup_failing_def init_def fresh_def R1_def R2_def R3_def
  get_driver_iter_def handle_popped_def on_empty_def release_driver_def is_driver_valid_def
  create_new_driver_def isinstance_def quit_driver_def tracked_ids_def tracked_def
  held_def held_ids_def launched_def consistent_def Let_def
  sweep_def check_consistency_def reap_stuck_def stuck_drivers_def shutdown_eq
  drain_one_def shutdown_locked_eq

text \<open>The pool \<open>leased_R1\<close> is what a first \<open>get_driver\<close> makes of a fresh pool.\<close>

lemma leased_R1_reached:
  "get_driver_iter (env_at 0 None (Returns R1)) (init 1 1800) = (Return R1, leased_R1)"
  by (simp add: get_driver_iter_def handle_popped_def on_empty_def create_new_driver_def env_at_def init_def leased_R1_def R1_def)

subsection \<open>The validator\<close>

text \<open>
  What \<open>_is_driver_valid\<close> does with each answer of the probe: \<open>True\<close> when
  \<open>driver.current_url\<close> returns, \<open>False\<close> for a falsy driver and for a
  \<open>WebDriverException\<close> (the two session-loss classes are subclasses of it), and the
  exception itself for any other one.
\<close>

lemma is_driver_valid_cases:
  "(is_driver_valid e drv = Returns True \<longleftrightarrow>
      (\<exists>d. drv = Some d \<and> current_url e d = None)) \<and>
   (is_driver_valid e drv = Returns False \<longleftrightarrow>
      drv = None \<or>
      (\<exists>d x. drv = Some d \<and> current_url e d = Some x \<and> isinstance x WebDriverException)) \<and>
   (is_driver_valid e drv = Raises x \<longleftrightarrow>
      (\<exists>d. drv = Some d \<and> current_url e d = Some x \<and> \<not> isinstance x WebDriverException))"
  by (cases drv; cases x)
     (auto simp: is_driver_valid_def isinstance_def split: option.splits)

text \<open>
  C8.  The claim: \<open>_is_driver_valid\<close> is total; it answers a session-loss error of
  the probe by \<open>False\<close> and treats an unexpected fault as invalid as well, so that no
  fault of the probe reaches \<open>get_driver\<close> or \<open>release_driver\<close>.  The code, at a
  driver whose probe raises an exception that is not a \<open>WebDriverException\<close>: the
  \<open>except\<close> clause does not catch it, \<open>_is_driver_valid\<close> raises it, and so does the
  pass of \<open>get_driver\<close> that took the driver from the idle queue.
\<close>

theorem is_driver_valid_probe_fault:
  "is_driver_valid (env_at 0 (Some OtherException) (Raises WebDriverException)) (Some R1) =
     Raises OtherException \<and>
   fst (get_driver_iter (env_at 0 (Some OtherException) (Raises WebDriverException))
          stale_idle) = Raise OtherException"
  by (simp add: sample_defs)

subsection \<open>Releasing a driver\<close>

text \<open>
  C10.  \<open>release_driver\<close> called with a falsy driver (\<open>None\<close>) returns at once: the
  pool, with its count, its idle queue, its active map and the log of \<open>quit\<close> calls, is
  exactly what it was.
\<close>

theorem release_driver_None_noop:
  "release_driver e None s = (Returns (), s)"
  by (simp add: release_driver_def)

text \<open>
  C9.  When \<open>id(driver)\<close> is not a key of the active map, \<open>release_driver\<close> invokes
  \<open>quit\<close> on the driver and returns normally; \<open>pool_size\<close>, the idle queue and the
  active map are what they were (the only change is the logged \<open>quit\<close> call).
\<close>

theorem release_driver_unknown:
  "map_of (active_drivers s) (address d) = None \<Longrightarrow>
   release_driver e (Some d) s = (Returns (), s\<lparr>quit_calls := quit_calls s @ [d]\<rparr>)"
  by (simp add: release_driver_def quit_driver_def split: option.splits)

theorem release_driver_unknown_witness:
  "map_of (active_drivers leased_R1) (address R2) = None \<and>
   release_driver (env_at 5 None (Raises WebDriverException)) (Some R2) leased_R1 =
     (Returns (), leased_R1\<lparr>quit_calls := [R2]\<rparr>)"
proof -
  have h: "map_of (active_drivers leased_R1) (address R2) = None"
    by (simp add: leased_R1_def R2_def)
  show ?thesis
    using h release_driver_unknown [OF h, of "env_at 5 None (Raises WebDriverException)"]
    by (simp add: leased_R1_def)
qed

text \<open>
  What \<open>release_driver\<close> does with a driver whose id is a key of the active map,
  whenever the validation returns: the entry is popped; a driver that is too old or
  judged invalid is quit and counted off; a young and valid one goes to the tail of the
  idle queue with the \<open>created_at\<close> of its entry.
\<close>

lemma release_driver_discards:
  "map_of (active_drivers s) (address d) = Some info \<Longrightarrow>
   time_time e - created_at info > max_driver_age s
     \<or> is_driver_valid e (Some d) = Returns False \<Longrightarrow>
   release_driver e (Some d) s =
     (Returns (),
      s\<lparr>active_drivers := AList.delete (address d) (active_drivers s),
        quit_calls := quit_calls s @ [d], pool_size := pool_size s - 1\<rparr>)"
  by (auto simp: release_driver_def quit_driver_Some Let_def)

lemma release_driver_requeues:
  "map_of (active_drivers s) (address d) = Some info \<Longrightarrow>
   \<not> time_time e - created_at info > max_driver_age s \<Longrightarrow>
   is_driver_valid e (Some d) = Returns True \<Longrightarrow>
   release_driver e (Some d) s =
     (Returns (),
      s\<lparr>active_drivers := AList.delete (address d) (active_drivers s),
        driver_pool := driver_pool s @ [\<lparr>driver = d, created_at = created_at info\<rparr>]\<rparr>)"
  by (simp add: release_driver_def Let_def)

text \<open>
  C3.  The claim: a driver whose id is in the active map is, on release, removed from
  the map and then either quit with the count decremented (when it is too old or fails
  validation) or put at the tail of the idle queue with its \<open>created_at\<close>.  The code,
  at \<open>R1\<close> leased and young with a probe that raises an exception that is not a
  \<open>WebDriverException\<close>: the entry is popped, the exception leaves
  \<open>release_driver\<close>, \<open>R1\<close> is neither quit nor queued, and \<open>pool_size\<close> is
  still 1.
\<close>

theorem release_driver_probe_fault:
  "map_of (active_drivers leased_R1) (address R1) =
     Some \<lparr>driver = R1, created_at = 0, last_used = 0\<rparr> \<and>
   release_driver (env_at 5 (Some OtherException) (Raises WebDriverException)) (Some R1)
       leased_R1 =
     (Raises OtherException,
      \<lparr>driver_pool = [], active_drivers = [], max_drivers = 1, max_driver_age = 1800,
       pool_size = 1, running = True, quit_calls = [], created = [R1]\<rparr>)"
  by (simp add: release_driver_def leased_R1_def R1_def env_at_def is_driver_valid_def
        isinstance_def)

subsection \<open>Getting a driver\<close>

text \<open>
  A lease does not reset the age either: a valid driver taken from the idle queue enters
  the active map with the \<open>created_at\<close> of its queue entry.
\<close>

lemma get_driver_iter_reuse:
  "driver_pool s = info # rest \<Longrightarrow> is_driver_valid e (Some (driver info)) = Returns True \<Longrightarrow>
   get_driver_iter e s =
     (Return (driver info),
      s\<lparr>driver_pool := rest,
        active_drivers :=
          AList.update (address (driver info))
            \<lparr>driver = driver info, created_at = created_at info, last_used = time_time e\<rparr>
            (active_drivers s)\<rparr>)"
  by (simp add: get_driver_iter_def handle_popped_def on_empty_def Let_def)

lemma waiting_step:
  "waiting st to (r # rs) s s' \<longleftrightarrow>
     loop_time r - st < to \<and>
     (fst (get_driver_iter (round_env r) (run (others r) s)) = Continue \<or>
      fst (get_driver_iter (round_env r) (run (others r) s)) = Sleep) \<and>
     waiting st to rs (snd (get_driver_iter (round_env r) (run (others r) s))) s'"
  by (cases rule: get_driver_iter_cases [of "run (others r) s" "round_env r"])
     (simp_all add: Let_def)

lemma get_driver_step:
  "get_driver st to (r # rs) s =
     (if loop_time r - st < to
      then (case fst (get_driver_iter (round_env r) (run (others r) s)) of
              Return d \<Rightarrow> (Some (Driver d), snd (get_driver_iter (round_env r) (run (others r) s)))
            | Raise x \<Rightarrow> (Some (Exception x), snd (get_driver_iter (round_env r) (run (others r) s)))
            | Continue \<Rightarrow> get_driver st to rs (snd (get_driver_iter (round_env r) (run (others r) s)))
            | Sleep \<Rightarrow> get_driver st to rs (snd (get_driver_iter (round_env r) (run (others r) s))))
      else (Some TimeoutError, run (others r) s))"
  by (simp add: Let_def split: prod.splits step.splits)

lemma get_driver_waiting:
  "waiting st to pre s s1 \<Longrightarrow> get_driver st to (pre @ rs) s = get_driver st to rs s1"
proof (induction pre arbitrary: s)
  case Nil
  then show ?case by simp
next
  case (Cons r pre)
  from Cons.prems have w: "loop_time r - st < to"
    "fst (get_driver_iter (round_env r) (run (others r) s)) = Continue \<or>
      fst (get_driver_iter (round_env r) (run (others r) s)) = Sleep"
    "waiting st to pre (snd (get_driver_iter (round_env r) (run (others r) s))) s1"
    by (simp_all only: waiting_step)
  from w(1,2) have "get_driver st to ((r # pre) @ rs) s =
      get_driver st to (pre @ rs) (snd (get_driver_iter (round_env r) (run (others r) s)))"
    by (auto simp only: append_Cons get_driver_step if_True step.case)
  with Cons.IH [OF w(3)] show ?case by simp
qed

lemma get_driver_timeout_iff:
  "get_driver st to rs s = (Some TimeoutError, s') \<longleftrightarrow>
     (\<exists>pre r post s1. rs = pre @ r # post \<and> waiting st to pre s s1 \<and>
        \<not> loop_time r - st < to \<and> s' = run (others r) s1)"
proof (induction rs arbitrary: s)
  case Nil
  then show ?case by simp
next
  case (Cons r rs)
  let ?it = "get_driver_iter (round_env r) (run (others r) s)"
  show ?case
  proof (cases "loop_time r - st < to")
    case False
    have "(\<exists>pre r' post s1. r # rs = pre @ r' # post \<and> waiting st to pre s s1 \<and>
        \<not> loop_time r' - st < to \<and> s' = run (others r') s1) \<longleftrightarrow> s' = run (others r) s"
    proof
      assume "\<exists>pre r' post s1. r # rs = pre @ r' # post \<and> waiting st to pre s s1 \<and>
        \<not> loop_time r' - st < to \<and> s' = run (others r') s1"
      then obtain pre r' post s1 where
        h: "r # rs = pre @ r' # post" "waiting st to pre s s1" "s' = run (others r') s1"
        by blast
      show "s' = run (others r) s"
      proof (cases pre)
        case Nil
        with h show ?thesis by simp
      next
        case (Cons a pre')
        with h(1) have "a = r" by simp
        with h(2) Cons False show ?thesis
          by (simp add: waiting_step del: waiting.simps(2))
      qed
    next
      assume "s' = run (others r) s"
      then have "r # rs = [] @ r # rs \<and> waiting st to [] s s \<and>
        \<not> loop_time r - st < to \<and> s' = run (others r) s"
        using False by simp
      then show "\<exists>pre r' post s1. r # rs = pre @ r' # post \<and> waiting st to pre s s1 \<and>
        \<not> loop_time r' - st < to \<and> s' = run (others r') s1"
        by blast
    qed
    with False show ?thesis by (auto simp only: get_driver_step if_False)
  next
    case True
    have rhs: "(\<exists>pre r' post s1. r # rs = pre @ r' # post \<and> waiting st to pre s s1 \<and>
        \<not> loop_time r' - st < to \<and> s' = run (others r') s1) \<longleftrightarrow>
      ((fst ?it = Continue \<or> fst ?it = Sleep) \<and>
       (\<exists>pre r' post s1. rs = pre @ r' # post \<and> waiting st to pre (snd ?it) s1 \<and>
        \<not> loop_time r' - st < to \<and> s' = run (others r') s1))"
      (is "?L \<longleftrightarrow> ?R")
    proof
      assume ?L
      then obtain pre r' post s1 where
        h: "r # rs = pre @ r' # post" "waiting st to pre s s1" "\<not> loop_time r' - st < to"
          "s' = run (others r') s1"
        by blast
      show ?R
      proof (cases pre)
        case Nil
        with h True show ?thesis by simp
      next
        case (Cons a pre')
        with h(1) have a: "a = r" "rs = pre' @ r' # post" by simp_all
        from h(2) have "(fst ?it = Continue \<or> fst ?it = Sleep) \<and> waiting st to pre' (snd ?it) s1"
          unfolding Cons a(1) by (simp only: waiting_step)
        with a(2) h(3,4) show ?thesis by blast
      qed
    next
      assume ?R
      then obtain pre r' post s1 where
        h: "fst ?it = Continue \<or> fst ?it = Sleep" "rs = pre @ r' # post"
          "waiting st to pre (snd ?it) s1" "\<not> loop_time r' - st < to" "s' = run (others r') s1"
        by blast
      from True h(1,3) have "waiting st to (r # pre) s s1"
        by (simp only: waiting_step)
      moreover from h(2) have "r # rs = (r # pre) @ r' # post" by simp
      ultimately show ?L using h(4,5) by blast
    qed
    show ?thesis
    proof (cases "fst ?it")
      case (Return d)
      with True rhs show ?thesis by (simp only: get_driver_step) simp
    next
      case (Raise x)
      with True rhs show ?thesis by (simp only: get_driver_step) simp
    next
      case Continue
      with True rhs Cons.IH [of "snd ?it"] show ?thesis by (simp only: get_driver_step) simp
    next
      case Sleep
      with True rhs Cons.IH [of "snd ?it"] show ?thesis by (simp only: get_driver_step) simp
    qed
  qed
qed

text \<open>
  The call does not stay in its loop: once a loop test reads a clock past the timeout,
  \<open>get_driver\<close> has returned or raised.
\<close>

lemma get_driver_ends:
  "\<exists>r \<in> set rs. \<not> loop_time r - st < to \<Longrightarrow> fst (get_driver st to rs s) \<noteq> None"
proof (induction rs arbitrary: s)
  case Nil
  then show ?case by simp
next
  case (Cons r rs)
  show ?case
  proof (cases "loop_time r - st < to")
    case False
    then show ?thesis by (simp only: get_driver_step) simp
  next
    case True
    with Cons.prems have "\<exists>r \<in> set rs. \<not> loop_time r - st < to" by auto
    then have "\<And>s. fst (get_driver st to rs s) \<noteq> None" by (rule Cons.IH)
    with True show ?thesis
      by (simp only: get_driver_step) (simp split: step.splits)
  qed
qed

text \<open>
  C6.  Whatever polls a call of \<open>get_driver\<close> has been kept waiting through: when
  a pass within the timeout finds the idle queue empty and \<open>pool_size\<close> below
  \<open>max_drivers\<close>, and \<open>_create_new_driver\<close> raises, then \<open>get_driver\<close> raises
  that exception and the pool is what it was when the pass began: \<open>pool_size\<close> is not
  incremented and the active map has no new entry.
\<close>

theorem get_driver_factory_failure:
  assumes "waiting start_time timeout pre s s_mid"
    and "loop_time r - start_time < timeout"
    and "driver_pool (run (others r) s_mid) = []"
    and "pool_size (run (others r) s_mid) < max_drivers (run (others r) s_mid)"
    and "create_new_driver (round_env r) = Raises x"
  shows "get_driver start_time timeout (pre @ r # post) s =
           (Some (Exception x), run (others r) s_mid)"
proof -
  from assms(1) have "get_driver start_time timeout (pre @ r # post) s =
      get_driver start_time timeout (r # post) s_mid"
    by (rule get_driver_waiting)
  with assms(2-5) show ?thesis
    by (simp add: get_driver_iter_def handle_popped_def on_empty_def Let_def)
qed

theorem get_driver_factory_failure_witness:
  "waiting 0 10 [poll [] 0 (Raises WebDriverException)] leased_R1 leased_R1 \<and>
   get_driver 0 10
     [poll [] 0 (Raises WebDriverException),
      poll [Release (env_at 3 (Some InvalidSessionIdException) (Raises WebDriverException))
              (Some R1)] 5 (Raises WebDriverException)]
     leased_R1 =
     (Some (Exception WebDriverException),
      leased_R1\<lparr>active_drivers := [], pool_size := 0, quit_calls := [R1]\<rparr>)"
proof -
  let ?F = "Raises WebDriverException :: webdriver outcome"
  let ?r = "poll [Release (env_at 3 (Some InvalidSessionIdException) ?F) (Some R1)] 5 ?F"
  have w: "waiting 0 10 [poll [] 0 ?F] leased_R1 leased_R1"
    by (simp add: sample_defs)
  have a: "loop_time ?r - 0 < 10"
    "driver_pool (run (others ?r) leased_R1) = []"
    "pool_size (run (others ?r) leased_R1) < max_drivers (run (others ?r) leased_R1)"
    "create_new_driver (round_env ?r) = Raises WebDriverException"
    by (simp_all add: sample_defs)
  show ?thesis
    using w get_driver_factory_failure [OF w a, of "[]"]
    by (simp add: sample_defs)
qed

text \<open>
  C4, as the code has it.  \<open>get_driver\<close> raises \<open>TimeoutError\<close> exactly when one of
  its loop tests finds the timeout elapsed after every poll before it was kept waiting
  (idle queue empty with \<open>pool_size \<ge> max_drivers\<close>, or an invalid driver at the head
  of the queue); what the other threads did before that last test is in the pool but
  is not looked at.  A poll within the timeout that finds a valid driver at the head of
  the idle queue returns it, and one that finds the queue empty and
  \<open>pool_size < max_drivers\<close> returns the driver the factory creates.  A poll that
  pops an invalid driver quits it, decrements \<open>pool_size\<close> and ends in \<open>continue\<close>,
  not in the sleep.
\<close>

theorem get_driver_polls:
  "(get_driver start timeout rs s = (Some TimeoutError, s_out) \<longleftrightarrow>
      (\<exists>pre r post s_mid. rs = pre @ r # post \<and> waiting start timeout pre s s_mid \<and>
         \<not> loop_time r - start < timeout \<and> s_out = run (others r) s_mid)) \<and>
   (waiting start timeout pre s s_mid \<and> loop_time r - start < timeout \<and>
    driver_pool (run (others r) s_mid) = info # rest \<and>
    is_driver_valid (round_env r) (Some (driver info)) = Returns True \<longrightarrow>
      get_driver start timeout (pre @ r # post) s =
        (Some (Driver (driver info)),
         (run (others r) s_mid)\<lparr>driver_pool := rest,
           active_drivers :=
             AList.update (address (driver info))
               \<lparr>driver = driver info, created_at = created_at info,
                last_used = time_time (round_env r)\<rparr>
               (active_drivers (run (others r) s_mid))\<rparr>)) \<and>
   (waiting start timeout pre s s_mid \<and> loop_time r2 - start < timeout \<and>
    driver_pool (run (others r2) s_mid) = [] \<and>
    pool_size (run (others r2) s_mid) < max_drivers (run (others r2) s_mid) \<and>
    create_new_driver (round_env r2) = Returns d \<longrightarrow>
      get_driver start timeout (pre @ r2 # post) s =
        (Some (Driver d),
         (run (others r2) s_mid)\<lparr>pool_size := pool_size (run (others r2) s_mid) + 1,
           created := created (run (others r2) s_mid) @ [d],
           active_drivers :=
             AList.update (address d)
               \<lparr>driver = d, created_at = time_time (round_env r2),
                last_used = time_time (round_env r2)\<rparr>
               (active_drivers (run (others r2) s_mid))\<rparr>)) \<and>
   (driver_pool q = hd_info # tl_rest \<and> is_driver_valid e (Some (driver hd_info)) = Returns False \<longrightarrow>
      get_driver_iter e q =
        (Continue,
         q\<lparr>driver_pool := tl_rest, quit_calls := quit_calls q @ [driver hd_info],
           pool_size := pool_size q - 1\<rparr>))"
proof (intro conjI impI)
  show "get_driver start timeout rs s = (Some TimeoutError, s_out) \<longleftrightarrow>
      (\<exists>pre r post s_mid. rs = pre @ r # post \<and> waiting start timeout pre s s_mid \<and>
         \<not> loop_time r - start < timeout \<and> s_out = run (others r) s_mid)"
    by (rule get_driver_timeout_iff)
next
  assume a: "waiting start timeout pre s s_mid \<and> loop_time r - start < timeout \<and>
    driver_pool (run (others r) s_mid) = info # rest \<and>
    is_driver_valid (round_env r) (Some (driver info)) = Returns True"
  then have "get_driver start timeout (pre @ r # post) s = get_driver start timeout (r # post) s_mid"
    by (simp only: get_driver_waiting)
  with a show "get_driver start timeout (pre @ r # post) s =
        (Some (Driver (driver info)),
         (run (others r) s_mid)\<lparr>driver_pool := rest,
           active_drivers :=
             AList.update (address (driver info))
               \<lparr>driver = driver info, created_at = created_at info,
                last_used = time_time (round_env r)\<rparr>
               (active_drivers (run (others r) s_mid))\<rparr>)"
    by (simp add: get_driver_iter_def handle_popped_def on_empty_def Let_def)
next
  assume a: "waiting start timeout pre s s_mid \<and> loop_time r2 - start < timeout \<and>
    driver_pool (run (others r2) s_mid) = [] \<and>
    pool_size (run (others r2) s_mid) < max_drivers (run (others r2) s_mid) \<and>
    create_new_driver (round_env r2) = Returns d"
  then have "get_driver start timeout (pre @ r2 # post) s = get_driver start timeout (r2 # post) s_mid"
    by (simp only: get_driver_waiting)
  with a show "get_driver start timeout (pre @ r2 # post) s =
        (Some (Driver d),
         (run (others r2) s_mid)\<lparr>pool_size := pool_size (run (others r2) s_mid) + 1,
           created := created (run (others r2) s_mid) @ [d],
           active_drivers :=
             AList.update (address d)
               \<lparr>driver = d, created_at = time_time (round_env r2),
                last_used = time_time (round_env r2)\<rparr>
               (active_drivers (run (others r2) s_mid))\<rparr>)"
    by (simp add: get_driver_iter_def handle_popped_def on_empty_def Let_def)
next
  assume "driver_pool q = hd_info # tl_rest \<and>
    is_driver_valid e (Some (driver hd_info)) = Returns False"
  then show "get_driver_iter e q =
        (Continue,
         q\<lparr>driver_pool := tl_rest, quit_calls := quit_calls q @ [driver hd_info],
           pool_size := pool_size q - 1\<rparr>)"
    by (simp add: get_driver_iter_def handle_popped_def on_empty_def Let_def quit_driver_Some)
qed

theorem get_driver_polls_witness:
  "get_driver 0 10
     [poll [] 0 (Raises WebDriverException), poll [] 10 (Raises WebDriverException)]
     leased_R1 = (Some TimeoutError, leased_R1) \<and>
   waiting 0 10 [poll [] 0 (Raises WebDriverException)] leased_R1 leased_R1 \<and>
   get_driver 0 10
     [poll [] 0 (Raises WebDriverException),
      poll [Release (env_at 3 None (Raises WebDriverException)) (Some R1)] 5
        (Raises WebDriverException)]
     leased_R1 =
     (Some (Driver R1),
      leased_R1\<lparr>active_drivers := [(1, \<lparr>driver = R1, created_at = 0, last_used = 5\<rparr>)]\<rparr>) \<and>
   get_driver 0 10
     [poll [] 0 (Raises WebDriverException),
      poll [Release (env_at 3 (Some InvalidSessionIdException) (Raises WebDriverException))
              (Some R1)] 5 (Returns R2)]
     leased_R1 =
     (Some (Driver R2),
      leased_R1\<lparr>active_drivers := [(2, \<lparr>driver = R2, created_at = 5, last_used = 5\<rparr>)],
        quit_calls := [R1], created := [R1, R2]\<rparr>) \<and>
   get_driver_iter (env_at 5 (Some NoSuchWindowException) (Raises WebDriverException))
     stale_idle =
     (Continue, stale_idle\<lparr>driver_pool := [], quit_calls := [R1], pool_size := 0\<rparr>)"
proof -
  let ?F = "Raises WebDriverException :: webdriver outcome"
  let ?r = "poll [Release (env_at 3 None ?F) (Some R1)] 5 ?F"
  let ?r' = "poll [Release (env_at 3 (Some InvalidSessionIdException) ?F) (Some R1)] 5 (Returns R2)"
  let ?e = "env_at 5 (Some NoSuchWindowException) ?F"
  have w: "waiting 0 10 [poll [] 0 ?F] leased_R1 leased_R1"
    by (simp add: sample_defs)
  have a: "loop_time ?r - 0 < 10"
     "driver_pool (run (others ?r) leased_R1) = \<lparr>driver = R1, created_at = 0\<rparr> # []"
     "is_driver_valid (round_env ?r) (Some (driver \<lparr>driver = R1, created_at = 0\<rparr>)) = Returns True"
    by (simp_all add: sample_defs)
  have b: "loop_time ?r' - 0 < 10"
     "driver_pool (run (others ?r') leased_R1) = []"
     "pool_size (run (others ?r') leased_R1) < max_drivers (run (others ?r') leased_R1)"
     "create_new_driver (round_env ?r') = Returns R2"
    by (simp_all add: sample_defs)
  have c: "driver_pool stale_idle = \<lparr>driver = R1, created_at = 0\<rparr> # []"
     "is_driver_valid ?e (Some (driver \<lparr>driver = R1, created_at = 0\<rparr>)) = Returns False"
    by (simp_all add: sample_defs)
  have t: "[poll [] 0 ?F, poll [] 10 ?F] = [poll [] 0 ?F] @ poll [] 10 ?F # [] \<and>
      waiting 0 10 [poll [] 0 ?F] leased_R1 leased_R1 \<and>
      \<not> loop_time (poll [] 10 ?F) - 0 < 10 \<and> leased_R1 = run (others (poll [] 10 ?F)) leased_R1"
    using w by (simp add: poll_def)
  note inst = get_driver_polls [where start = 0 and timeout = 10 and s = leased_R1
      and s_out = leased_R1 and rs = "[poll [] 0 ?F, poll [] 10 ?F]"
      and pre = "[poll [] 0 ?F]" and s_mid = leased_R1
      and r = ?r and info = "\<lparr>driver = R1, created_at = 0\<rparr>" and rest = "[]" and post = "[]"
      and ?r2.0 = ?r' and d = R2 and q = stale_idle
      and hd_info = "\<lparr>driver = R1, created_at = 0\<rparr>" and tl_rest = "[]" and e = ?e]
  from inst t
  have 1: "get_driver 0 10 [poll [] 0 ?F, poll [] 10 ?F] leased_R1 = (Some TimeoutError, leased_R1)"
    by blast
  from inst w a have 2: "get_driver 0 10 ([poll [] 0 ?F] @ ?r # []) leased_R1 =
      (Some (Driver R1),
      leased_R1\<lparr>active_drivers := [(1, \<lparr>driver = R1, created_at = 0, last_used = 5\<rparr>)]\<rparr>)"
    by (simp add: sample_defs)
  from inst w b have 3: "get_driver 0 10 ([poll [] 0 ?F] @ ?r' # []) leased_R1 =
      (Some (Driver R2),
      leased_R1\<lparr>active_drivers := [(2, \<lparr>driver = R2, created_at = 5, last_used = 5\<rparr>)],
        quit_calls := [R1], created := [R1, R2]\<rparr>)"
    by (simp add: sample_defs)
  from inst c have 4: "get_driver_iter ?e stale_idle =
     (Continue, stale_idle\<lparr>driver_pool := [], quit_calls := [R1], pool_size := 0\<rparr>)"
    by (simp add: sample_defs)
  from 1 w 2 3 4 show ?thesis by simp
qed

text \<open>
  The claim C4 as it is stated lets the call fail only when nothing became available
  during the whole timeout.  Here the capacity is 1, \<open>R1\<close> is leased, and the call has
  a timeout of one second: its polls at 0 and at 1/2 find nothing, \<open>R1\<close> is released
  in good health at 7/10, and the loop test at 1 raises \<open>TimeoutError\<close> with \<open>R1\<close>
  valid in the idle queue.
\<close>

theorem get_driver_polls_counterexample:
  "get_driver 0 1
     [poll [] 0 (Raises WebDriverException),
      poll [] (1/2) (Raises WebDriverException),
      poll [Release (env_at (7/10) None (Raises WebDriverException)) (Some R1)] 1
        (Raises WebDriverException)]
     leased_R1 =
     (Some TimeoutError,
      leased_R1\<lparr>active_drivers := [], driver_pool := [\<lparr>driver = R1, created_at = 0\<rparr>]\<rparr>) \<and>
   is_driver_valid (env_at 1 None (Raises WebDriverException)) (Some R1) = Returns True \<and>
   time_time (env_at (7/10) None (Raises WebDriverException)) - 0 < 1"
  by (simp add: sample_defs)

subsection \<open>The sweep of the maintenance worker\<close>

text \<open>
  C5.  For an active map with distinct keys (a dictionary) and every environment, also
  one in which \<open>driver.quit()\<close> raises: the first block of a sweep quits every leased
  driver whose \<open>last_used\<close> lies more than 300 seconds before the clock, removes
  exactly those entries from the active map and lowers \<open>pool_size\<close> by their number,
  with no call of the leaseholder; the second block then leaves \<open>pool_size\<close> equal to
  the size of the active map plus that of the idle queue; the sweep returns without an
  exception, keeps \<open>running\<close>, and the worker goes on to its next period as long as
  \<open>running\<close> holds.
\<close>

theorem sweep_reaps_and_repairs:
  assumes "distinct (map fst (active_drivers s))"
  shows
    "reap_stuck e s =
       s\<lparr>quit_calls := quit_calls s @
            map (\<lambda>(k, info). driver info)
              (filter (\<lambda>(k, info). time_time e - last_used info > 300) (active_drivers s)),
         active_drivers :=
            filter (\<lambda>(k, info). \<not> time_time e - last_used info > 300) (active_drivers s),
         pool_size := pool_size s -
            int (length (filter (\<lambda>(k, info). time_time e - last_used info > 300)
                   (active_drivers s)))\<rparr> \<and>
     sweep e s =
       (Returns (),
        (reap_stuck e s)\<lparr>pool_size :=
           int (length (active_drivers (reap_stuck e s))) + int (length (driver_pool s))\<rparr>) \<and>
     running (snd (sweep e s)) = running s \<and>
     maintenance_worker (e # es) s =
       (if running s then maintenance_worker es (snd (sweep e s)) else s)"
proof -
  have reap: "driver_pool (reap_stuck e s) = driver_pool s"
             "running (reap_stuck e s) = running s"
    by (simp_all add: reap_stuck_def clean_up_eq)
  have sw: "sweep e s =
       (Returns (),
        (reap_stuck e s)\<lparr>pool_size :=
           int (length (active_drivers (reap_stuck e s))) + int (length (driver_pool s))\<rparr>)"
    by (simp add: sweep_def check_consistency_def Let_def reap)
  have "running (snd (sweep e s)) = running s"
    by (simp add: sw reap)
  moreover have "maintenance_worker (e # es) s =
       (if running s then maintenance_worker es (snd (sweep e s)) else s)"
    by (simp add: sw)
  ultimately show ?thesis
    using reap_stuck_eq [OF assms, of e] sw by (simp add: split_def)
qed

theorem sweep_reaps_and_repairs_witness:
  "distinct (map fst (active_drivers two_leased)) \<and>
   reap_stuck (quit_failing 400) two_leased =
     two_leased\<lparr>quit_calls := [R1],
       active_drivers := [(2, \<lparr>driver = R2, created_at = 200, last_used = 200\<rparr>)],
       pool_size := 2\<rparr> \<and>
   sweep (quit_failing 400) two_leased =
     (Returns (),
      two_leased\<lparr>quit_calls := [R1],
        active_drivers := [(2, \<lparr>driver = R2, created_at = 200, last_used = 200\<rparr>)],
        pool_size := 1\<rparr>) \<and>
   maintenance_worker [quit_failing 400] two_leased =
     two_leased\<lparr>quit_calls := [R1],
       active_drivers := [(2, \<lparr>driver = R2, created_at = 200, last_used = 200\<rparr>)],
       pool_size := 1\<rparr>"
proof -
  have h: "distinct (map fst (active_drivers two_leased))"
    by (simp add: two_leased_def)
  show ?thesis
    using h sweep_reaps_and_repairs [OF h, of "quit_failing 400" "[]"]
    by (simp add: two_leased_def quit_failing_def)
qed

subsection \<open>The count and the containers\<close>

text \<open>
  C1.  The claim: in every interleaving of \<open>get_driver\<close> and \<open>release_driver\<close>
  from a fresh pool, at every point \<open>pool_size\<close> is the size of the idle queue plus
  the size of the active map, and it never exceeds \<open>max_drivers\<close>.  The code, in
  \<open>faulty_run\<close> (capacity 1, calls made one after the other): the probe of the second
  \<open>get_driver\<close> raises after \<open>R1\<close> was taken from the idle queue, the exception
  leaves \<open>get_driver\<close>, \<open>R1\<close> is in neither container and \<open>pool_size\<close> is
  still 1.
\<close>

theorem pool_size_drift:
  "pool_size (run faulty_run (init 1 1800)) = 1 \<and>
   driver_pool (run faulty_run (init 1 1800)) = [] \<and>
   active_drivers (run faulty_run (init 1 1800)) = [] \<and>
   \<not> consistent (run faulty_run (init 1 1800))"
  by (simp add: sample_defs)

text \<open>
  The count also leaves the containers without any exception, because \<open>get_driver\<close>
  takes a driver from the queue before it holds the lock.  In \<open>race_moves\<close> every
  move is orderly.  After thread A has taken \<open>R1\<close> from the queue the count is 1 and
  both containers are empty; the sweep that runs then sets the count to 0; A leases
  \<open>R1\<close>; thread B finds the count below the capacity of 1 and creates \<open>R2\<close>; and
  the next sweep sets the count to 2.
\<close>

lemma unlocked_pop_race:
  "all_orderly race_moves (fresh 1 1800) \<and>
   pool_size (pool_of (moves (take 4 race_moves) (fresh 1 1800))) = 1 \<and>
   tracked (pool_of (moves (take 4 race_moves) (fresh 1 1800))) = [] \<and>
   pool_size (pool_of (moves (take 6 race_moves) (fresh 1 1800))) = 0 \<and>
   tracked (pool_of (moves race_moves (fresh 1 1800))) = [R1, R2] \<and>
   pool_size (pool_of (moves race_moves (fresh 1 1800))) = 2 \<and>
   max_drivers (pool_of (moves race_moves (fresh 1 1800))) = 1"
  by (simp add: sample_defs)

subsection \<open>The key of an entry of the active map\<close>















subsection \<open>Created, tracked, destroyed\<close>




























text \<open>
  What the theorem does not promise, the code does not do.  When a holder releases its
  driver between the drain loop of \<open>shutdown\<close> and its block under the lock, every
  move is orderly and the driver is in the idle queue, not quit, when \<open>shutdown\<close>
  has returned.  After the probe fault of \<open>faulty_run\<close> the pool holds \<open>R1\<close>
  no more without having quit it, so that a \<open>shutdown\<close> does not quit it either.
  And a driver that \<open>webdriver.Chrome\<close> started and whose timeout setters raise
  never reaches the pool and is not quit.
\<close>

lemma shutdown_overlapped_by_release:
  "all_orderly overlapped_shutdown_moves (fresh 1 1800) \<and>
   driver_pool (pool_of (moves overlapped_shutdown_moves (fresh 1 1800))) =
     [\<lparr>driver = R1, created_at = 0\<rparr>] \<and>
   quit_calls (pool_of (moves overlapped_shutdown_moves (fresh 1 1800))) = []"
  by (simp add: sample_defs)

lemma probe_fault_leaks:
  "created (shutdown (env_at 20 None (Returns R2)) (run faulty_run (init 1 1800))) = [R1] \<and>
   quit_calls (shutdown (env_at 20 None (Returns R2)) (run faulty_run (init 1 1800))) = []"
  by (simp add: sample_defs)

lemma failed_setup_leaks:
  "get_driver_iter (setup_failing 0) (init 1 1800) = (Raise WebDriverException, init 1 1800) \<and>
   started (moves [Queue_get, On_empty (setup_failing 0)] (fresh 1 1800)) = [R1] \<and>
   held (moves [Queue_get, On_empty (setup_failing 0)] (fresh 1 1800)) = [] \<and>
   quit_calls (pool_of (moves [Queue_get, On_empty (setup_failing 0)] (fresh 1 1800))) = []"
  by (simp add: sample_defs)

end
